theory Spec2Isabelle
  imports Main "HOL-Library.Word"
begin

section \<open>The data model of examples/tree.c\<close>

text \<open>
  A \<^verbatim>\<open>struct Node*\<close> is either \<^verbatim>\<open>NULL\<close> (\<open>None\<close>) or the address of a node.
  Nodes live in a store that maps addresses to node values, so that sharing and cycles
  between nodes can be expressed, as they can in C. The \<^verbatim>\<open>char*\<close> field \<open>name\<close> may be
  \<^verbatim>\<open>NULL\<close> as well.
\<close>

type_synonym addr = nat

type_synonym ptr = "addr option"

record Node =
  left :: ptr
  right :: ptr
  name :: "string option"

text \<open>
  What C leaves undefined is a value of the model: reading a field through \<^verbatim>\<open>NULL\<close>,
  reading a field through an address that holds no node, and handing \<^verbatim>\<open>NULL\<close> to the
  \<^verbatim>\<open>%s\<close> conversion of \<^verbatim>\<open>printf\<close>.
\<close>

datatype fault = Null_deref | Invalid_deref | Null_string

text \<open>
  The observable standard output is the field \<open>stdout\<close>. The field \<open>trace\<close> is a ghost
  log: it records every entry into \<^verbatim>\<open>dfs\<close> and into \<^verbatim>\<open>visit\<close> together with the
  argument of the call, and nothing in the model reads it.
\<close>

datatype event = Ev_dfs ptr | Ev_visit ptr

record state =
  heap :: "addr \<rightharpoonup> Node"
  stdout :: string
  trace :: "event list"

definition log_event :: "event \<Rightarrow> state \<Rightarrow> state" where
  "log_event e s = s\<lparr>trace := trace s @ [e]\<rparr>"

definition printf :: "string \<Rightarrow> state \<Rightarrow> state" where
  "printf txt s = s\<lparr>stdout := stdout s @ txt\<rparr>"

section \<open>visit and dfs\<close>

text \<open>
  \<^verbatim>\<open>printf("visiting node '%s'\n", node->name)\<close>: the argument is dereferenced without
  a test. \<open>CHR 0x27\<close> is the single quote and \<open>CHR 0x0A\<close> the newline.
\<close>

definition visit :: "ptr \<Rightarrow> state \<Rightarrow> fault + state" where
  "visit node s =
     (let s0 = log_event (Ev_visit node) s in
      case node of
        None \<Rightarrow> Inl Null_deref
      | Some a \<Rightarrow>
          (case heap s0 a of
             None \<Rightarrow> Inl Invalid_deref
           | Some n \<Rightarrow>
               (case name n of
                  None \<Rightarrow> Inl Null_string
                | Some nm \<Rightarrow>
                    Inr (printf (''visiting node '' @ [CHR 0x27] @ nm @ [CHR 0x27, CHR 0x0A]) s0))))"

text \<open>
  The recursion of \<^verbatim>\<open>dfs\<close> follows the pointers of the store and need not end (a node
  may point back to itself), so the result is an \<open>option\<close>: \<open>None\<close> is a run that never
  returns. \<^verbatim>\<open>node->left\<close> is read after \<^verbatim>\<open>visit\<close> has returned and \<^verbatim>\<open>node->right\<close>
  after the left call has returned, each from the store as it is at that moment.
\<close>

partial_function (option) dfs :: "ptr \<Rightarrow> state \<Rightarrow> (fault + state) option" where
  "dfs node s =
     (let s0 = log_event (Ev_dfs node) s in
      case node of
        None \<Rightarrow> Some (Inr s0)
      | Some a \<Rightarrow>
          (case visit node s0 of
             Inl e \<Rightarrow> Some (Inl e)
           | Inr s1 \<Rightarrow>
               (case heap s1 a of
                  None \<Rightarrow> Some (Inl Invalid_deref)
                | Some n \<Rightarrow>
                    Option.bind (dfs (left n) s1) (\<lambda>r.
                      case r of
                        Inl e \<Rightarrow> Some (Inl e)
                      | Inr s2 \<Rightarrow>
                          (case heap s2 a of
                             None \<Rightarrow> Some (Inl Invalid_deref)
                           | Some n2 \<Rightarrow> dfs (right n2) s2)))))"

declare dfs.simps [code]

section \<open>main\<close>

text \<open>
  The seven local variables of \<^verbatim>\<open>main\<close> have their addresses taken, so they are cells
  of the store at seven distinct addresses.
\<close>

definition root_addr :: addr where "root_addr = 0"
definition a_addr :: addr where "a_addr = 1"
definition b_addr :: addr where "b_addr = 2"
definition c_addr :: addr where "c_addr = 3"
definition d_addr :: addr where "d_addr = 4"
definition e_addr :: addr where "e_addr = 5"
definition f_addr :: addr where "f_addr = 6"

text \<open>
  A designated initializer \<^verbatim>\<open>{.name = "root"}\<close> sets the fields it does not mention to
  null pointers.
\<close>

definition declare_node :: "addr \<Rightarrow> string \<Rightarrow> state \<Rightarrow> state" where
  "declare_node x nm s =
     s\<lparr>heap := (heap s)(x \<mapsto> \<lparr>left = None, right = None, name = Some nm\<rparr>)\<rparr>"

definition main_declare :: "state \<Rightarrow> state" where
  "main_declare s =
     (let s = declare_node root_addr ''root'' s;
          s = declare_node a_addr ''a'' s;
          s = declare_node b_addr ''b'' s;
          s = declare_node c_addr ''c'' s;
          s = declare_node d_addr ''d'' s;
          s = declare_node e_addr ''e'' s;
          s = declare_node f_addr ''f'' s
      in s)"

text \<open>The assignments \<^verbatim>\<open>x.left = &y\<close> and \<^verbatim>\<open>x.right = &y\<close>.\<close>

definition set_left :: "addr \<Rightarrow> ptr \<Rightarrow> state \<Rightarrow> fault + state" where
  "set_left x p s =
     (case heap s x of
        None \<Rightarrow> Inl Invalid_deref
      | Some n \<Rightarrow> Inr (s\<lparr>heap := (heap s)(x \<mapsto> n\<lparr>left := p\<rparr>)\<rparr>))"

definition set_right :: "addr \<Rightarrow> ptr \<Rightarrow> state \<Rightarrow> fault + state" where
  "set_right x p s =
     (case heap s x of
        None \<Rightarrow> Inl Invalid_deref
      | Some n \<Rightarrow> Inr (s\<lparr>heap := (heap s)(x \<mapsto> n\<lparr>right := p\<rparr>)\<rparr>))"

definition and_then :: "fault + 'a \<Rightarrow> ('a \<Rightarrow> fault + 'b) \<Rightarrow> fault + 'b" where
  "and_then r k = (case r of Inl e \<Rightarrow> Inl e | Inr x \<Rightarrow> k x)"

definition main_link :: "state \<Rightarrow> fault + state" where
  "main_link s =
     and_then (set_left root_addr (Some a_addr) s) (\<lambda>s.
     and_then (set_right root_addr (Some b_addr) s) (\<lambda>s.
     and_then (set_left a_addr (Some c_addr) s) (\<lambda>s.
     and_then (set_right a_addr (Some d_addr) s) (\<lambda>s.
     and_then (set_left d_addr (Some e_addr) s) (\<lambda>s.
     set_right b_addr (Some f_addr) s)))))"

text \<open>
  \<^verbatim>\<open>main\<close> runs from any state of the world: whatever the store and the output hold
  before, the declarations overwrite the seven cells and the output is appended to.
  The result is the exit status together with the final state.
\<close>

definition main :: "state \<Rightarrow> (fault + 32 word \<times> state) option" where
  "main s =
     (case main_link (main_declare s) of
        Inl e \<Rightarrow> Some (Inl e)
      | Inr s1 \<Rightarrow>
          Option.bind (dfs (Some root_addr) (printf (''beginning depth first search'' @ [CHR 0x0A]) s1))
            (\<lambda>r. case r of
                    Inl e \<Rightarrow> Some (Inl e)
                  | Inr s2 \<Rightarrow>
                      Some (Inr (0, printf (''finished depth first search'' @ [CHR 0x0A]) s2))))"

section \<open>Notions the properties are stated with\<close>

text \<open>The arguments of the calls of \<^verbatim>\<open>visit\<close>, in the order of the calls.\<close>

fun visited :: "event list \<Rightarrow> ptr list" where
  "visited [] = []"
| "visited (Ev_visit p # es) = p # visited es"
| "visited (Ev_dfs p # es) = visited es"

text \<open>The number of entries into \<^verbatim>\<open>dfs\<close> whose argument is the null pointer.\<close>

fun null_checks :: "event list \<Rightarrow> nat" where
  "null_checks [] = 0"
| "null_checks (Ev_dfs None # es) = Suc (null_checks es)"
| "null_checks (e # es) = null_checks es"

text \<open>The number of entries into \<^verbatim>\<open>dfs\<close> whose argument is a node.\<close>

fun node_calls :: "event list \<Rightarrow> nat" where
  "node_calls [] = 0"
| "node_calls (Ev_dfs (Some a) # es) = Suc (node_calls es)"
| "node_calls (e # es) = node_calls es"

text \<open>
  A finite binary tree of named cells: the shape a store has below a pointer when no
  cycle is reachable from it. \<open>tree_at h p t\<close> says that the store \<open>h\<close> holds the tree \<open>t\<close>
  at pointer \<open>p\<close>: a null pointer is the empty tree, and a node's cell carries the name
  and the two subtrees. The tree is acyclic and without sharing when its addresses are
  distinct.
\<close>

datatype tree = Tip | Br tree addr string tree

fun tree_at :: "(addr \<rightharpoonup> Node) \<Rightarrow> ptr \<Rightarrow> tree \<Rightarrow> bool" where
  "tree_at h p Tip = (p = None)"
| "tree_at h p (Br l a nm r) =
     (p = Some a \<and>
      (case h a of
         None \<Rightarrow> False
       | Some n \<Rightarrow> name n = Some nm \<and> tree_at h (left n) l \<and> tree_at h (right n) r))"

fun addrs :: "tree \<Rightarrow> addr list" where
  "addrs Tip = []"
| "addrs (Br l a nm r) = a # addrs l @ addrs r"

fun names :: "tree \<Rightarrow> string list" where
  "names Tip = []"
| "names (Br l a nm r) = nm # names l @ names r"

text \<open>The cells that can be reached from a pointer by following child pointers.\<close>

inductive reachable :: "(addr \<rightharpoonup> Node) \<Rightarrow> ptr \<Rightarrow> addr \<Rightarrow> bool" for h where
  reach_here: "h a = Some n \<Longrightarrow> reachable h (Some a) a"
| reach_left: "h a = Some n \<Longrightarrow> reachable h (left n) b \<Longrightarrow> reachable h (Some a) b"
| reach_right: "h a = Some n \<Longrightarrow> reachable h (right n) b \<Longrightarrow> reachable h (Some a) b"

text \<open>What a run of \<^verbatim>\<open>dfs\<close> over a tree writes and logs.\<close>

definition visit_line :: "string \<Rightarrow> string" where
  "visit_line nm = ''visiting node '' @ [CHR 0x27] @ nm @ [CHR 0x27, CHR 0x0A]"

fun tree_trace :: "tree \<Rightarrow> event list" where
  "tree_trace Tip = [Ev_dfs None]"
| "tree_trace (Br l a nm r) =
     Ev_dfs (Some a) # Ev_visit (Some a) # tree_trace l @ tree_trace r"

text \<open>The tree that \<^verbatim>\<open>main\<close> wires.\<close>

definition main_tree :: tree where
  "main_tree =
     Br (Br (Br Tip c_addr ''c'' Tip) a_addr ''a'' (Br (Br Tip e_addr ''e'' Tip) d_addr ''d'' Tip))
        root_addr ''root''
        (Br Tip b_addr ''b'' (Br Tip f_addr ''f'' Tip))"

code_pred reachable .

text \<open>
  The store after the declarations and the six assignments of \<^verbatim>\<open>main\<close>: the seven cells
  are overwritten and every other cell of the store is as it was.
\<close>

definition wired :: "(addr \<rightharpoonup> Node) \<Rightarrow> (addr \<rightharpoonup> Node)" where
  "wired h = h
     (root_addr \<mapsto> \<lparr>left = Some a_addr, right = Some b_addr, name = Some ''root''\<rparr>,
      a_addr \<mapsto> \<lparr>left = Some c_addr, right = Some d_addr, name = Some ''a''\<rparr>,
      b_addr \<mapsto> \<lparr>left = None, right = Some f_addr, name = Some ''b''\<rparr>,
      c_addr \<mapsto> \<lparr>left = None, right = None, name = Some ''c''\<rparr>,
      d_addr \<mapsto> \<lparr>left = Some e_addr, right = None, name = Some ''d''\<rparr>,
      e_addr \<mapsto> \<lparr>left = None, right = None, name = Some ''e''\<rparr>,
      f_addr \<mapsto> \<lparr>left = None, right = None, name = Some ''f''\<rparr>)"

section \<open>Auxiliary facts\<close>

lemmas addr_defs = root_addr_def a_addr_def b_addr_def c_addr_def d_addr_def e_addr_def f_addr_def

lemma main_link_wired: "main_link (main_declare s) = Inr (s\<lparr>heap := wired (heap s)\<rparr>)"
  by (simp add: main_link_def main_declare_def declare_node_def set_left_def set_right_def
      and_then_def wired_def addr_defs fun_eq_iff)

lemma dfs_tree:
  "tree_at (heap s) p t \<Longrightarrow>
   dfs p s = Some (Inr (s\<lparr>stdout := stdout s @ concat (map visit_line (names t)),
                          trace := trace s @ tree_trace t\<rparr>))"
proof (induction t arbitrary: p s)
  case Tip
  then show ?case
    by (subst dfs.simps) (simp add: log_event_def)
next
  case (Br l a nm r)
  from Br.prems obtain n where p: "p = Some a" and n: "heap s a = Some n"
    and nm: "name n = Some nm"
    and l: "tree_at (heap s) (left n) l" and r: "tree_at (heap s) (right n) r"
    by (auto split: option.splits)
  define s1 where "s1 = printf (visit_line nm) (log_event (Ev_visit p) (log_event (Ev_dfs p) s))"
  have h1: "heap s1 = heap s"
    by (simp add: s1_def printf_def log_event_def)
  have v: "visit p (log_event (Ev_dfs p) s) = Inr s1"
    by (simp add: visit_def s1_def p n nm log_event_def visit_line_def)
  define s2 where "s2 = s1\<lparr>stdout := stdout s1 @ concat (map visit_line (names l)),
                          trace := trace s1 @ tree_trace l\<rparr>"
  have dl: "dfs (left n) s1 = Some (Inr s2)"
    unfolding s2_def using l by (intro Br.IH(1)) (simp add: h1)
  have h2: "heap s2 = heap s"
    by (simp add: s2_def h1)
  have dr: "dfs (right n) s2 =
      Some (Inr (s2\<lparr>stdout := stdout s2 @ concat (map visit_line (names r)),
                     trace := trace s2 @ tree_trace r\<rparr>))"
    using r by (intro Br.IH(2)) (simp add: h2)
  show ?case
    apply (subst dfs.simps)
    apply (simp add: v[unfolded p] p h1 h2 n dl dr)
    apply (simp add: s2_def s1_def printf_def log_event_def p)
    done
qed

lemma visited_append: "visited (xs @ ys) = visited xs @ visited ys"
  by (induction xs rule: visited.induct) simp_all

lemma null_checks_append: "null_checks (xs @ ys) = null_checks xs + null_checks ys"
  by (induction xs rule: null_checks.induct) simp_all

lemma node_calls_append: "node_calls (xs @ ys) = node_calls xs + node_calls ys"
  by (induction xs rule: node_calls.induct) simp_all

lemma visited_tree_trace: "visited (tree_trace t) = map Some (addrs t)"
  by (induction t) (simp_all add: visited_append)

lemma null_checks_tree_trace: "null_checks (tree_trace t) = Suc (length (addrs t))"
  by (induction t) (simp_all add: null_checks_append)

lemma node_calls_tree_trace: "node_calls (tree_trace t) = length (addrs t)"
  by (induction t) (simp_all add: node_calls_append)

lemma reachable_in_tree: "reachable h p b \<Longrightarrow> tree_at h p t \<Longrightarrow> b \<in> set (addrs t)"
proof (induction arbitrary: t rule: reachable.induct)
  case (reach_here a n)
  then show ?case by (cases t) simp_all
next
  case (reach_left a n b)
  then show ?case by (cases t) auto
next
  case (reach_right a n b)
  then show ?case by (cases t) auto
qed

lemma tree_reachable: "tree_at h p t \<Longrightarrow> b \<in> set (addrs t) \<Longrightarrow> reachable h p b"
proof (induction t arbitrary: p)
  case Tip
  then show ?case by simp
next
  case (Br l a nm r)
  from Br.prems(1) obtain n where p: "p = Some a" and n: "h a = Some n"
    and l: "tree_at h (left n) l" and r: "tree_at h (right n) r"
    by (auto split: option.splits)
  from Br.prems(2) consider "b = a" | "b \<in> set (addrs l)" | "b \<in> set (addrs r)"
    by auto
  then show ?case
  proof cases
    case 1
    then show ?thesis using n p by (auto intro: reach_here)
  next
    case 2
    then show ?thesis using Br.IH(1)[OF l] n p by (auto intro: reach_left)
  next
    case 3
    then show ?thesis using Br.IH(2)[OF r] n p by (auto intro: reach_right)
  qed
qed

lemma reachable_tree: "tree_at h p t \<Longrightarrow> {b. reachable h p b} = set (addrs t)"
  by (auto intro: tree_reachable reachable_in_tree)

lemma visit_heap: "visit p s = Inr s' \<Longrightarrow> heap s' = heap s"
  by (auto simp: visit_def printf_def log_event_def Let_def split: option.splits)

lemma visit_not_null_deref: "visit (Some a) s \<noteq> Inl Null_deref"
  by (simp add: visit_def Let_def split: option.splits)

lemma dfs_heap_result: "dfs p s = Some r \<Longrightarrow> r = Inr s' \<Longrightarrow> heap s' = heap s"
proof (induction arbitrary: s' rule: dfs.raw_induct[rotated 1, consumes 1])
  case (1 dfs' node s r)
  show ?case
  proof (cases node)
    case None
    with 1(2,3) show ?thesis by (auto simp: log_event_def)
  next
    case (Some a)
    with 1(2,3) obtain s1 n s2 n2 where
      v: "visit (Some a) (log_event (Ev_dfs (Some a)) s) = Inr s1" and
      "heap s1 a = Some n" and l: "dfs' (left n) s1 = Some (Inr s2)" and
      "heap s2 a = Some n2" and r: "dfs' (right n2) s2 = Some (Inr s')"
      by (auto simp: Let_def split: sum.splits option.splits Option.bind_splits)
    have "heap s' = heap s2" using 1(1)[OF r] by simp
    also have "\<dots> = heap s1" using 1(1)[OF l] by simp
    also have "\<dots> = heap (log_event (Ev_dfs (Some a)) s)" using visit_heap[OF v] .
    finally show ?thesis by (simp add: log_event_def)
  qed
qed

lemma dfs_heap: "dfs p s = Some (Inr s') \<Longrightarrow> heap s' = heap s"
  by (rule dfs_heap_result) simp_all

lemma dfs_no_null_deref: "dfs p s = Some r \<Longrightarrow> r \<noteq> Inl Null_deref"
proof (induction rule: dfs.raw_induct[rotated 1, consumes 1])
  case (1 dfs' node s r)
  show ?case
  proof (cases node)
    case None
    with 1(2) show ?thesis by auto
  next
    case (Some a)
    with 1 visit_not_null_deref[of a "log_event (Ev_dfs (Some a)) s"] show ?thesis
      by (auto simp: Let_def split: sum.splits option.splits Option.bind_splits)
  qed
qed

lemma wired_tree: "tree_at (wired h) (Some root_addr) main_tree"
  by (simp add: wired_def main_tree_def addr_defs)

lemma main_tree_distinct: "distinct (addrs main_tree)"
  by (simp add: main_tree_def addr_defs)

lemma main_run:
  "main s = Some (Inr (0, s\<lparr>heap := wired (heap s),
       stdout := stdout s @ ''beginning depth first search'' @ [CHR 0x0A]
                 @ concat (map visit_line (names main_tree))
                 @ ''finished depth first search'' @ [CHR 0x0A],
       trace := trace s @ tree_trace main_tree\<rparr>))"
proof -
  define s1 where "s1 = printf (''beginning depth first search'' @ [CHR 0x0A]) (s\<lparr>heap := wired (heap s)\<rparr>)"
  have "tree_at (heap s1) (Some root_addr) main_tree"
    by (simp add: s1_def printf_def wired_tree)
  from dfs_tree[OF this] show ?thesis
    by (simp add: main_def main_link_wired s1_def[symmetric]) (simp add: s1_def printf_def)
qed

lemma linked_run:
  "dfs (Some root_addr) (s\<lparr>heap := wired (heap s)\<rparr>) =
     Some (Inr (s\<lparr>heap := wired (heap s),
       stdout := stdout s @ concat (map visit_line (names main_tree)),
       trace := trace s @ tree_trace main_tree\<rparr>))"
proof -
  have "tree_at (heap (s\<lparr>heap := wired (heap s)\<rparr>)) (Some root_addr) main_tree"
    by (simp add: wired_tree)
  from dfs_tree[OF this] show ?thesis by simp
qed

lemma main_tree_addrs:
  "addrs main_tree = [root_addr, a_addr, c_addr, d_addr, e_addr, b_addr, f_addr]"
  by (simp add: main_tree_def)

lemma main_tree_names:
  "names main_tree = [''root'', ''a'', ''c'', ''d'', ''e'', ''b'', ''f'']"
  by (simp add: main_tree_def)

lemma count_list_distinct: "distinct xs \<Longrightarrow> count_list xs x = (if x \<in> set xs then 1 else 0)"
  by (induction xs) auto

lemma card_reachable_tree:
  "tree_at h p t \<Longrightarrow> distinct (addrs t) \<Longrightarrow> card {b. reachable h p b} = length (addrs t)"
  by (simp add: reachable_tree distinct_card)

section \<open>The properties\<close>

text \<open>
  C1. Run from any state, the program returns, and what it has appended to the standard
  output is exactly nine lines, each ended by a newline: the line
  \<^verbatim>\<open>beginning depth first search\<close>, the seven lines \<^verbatim>\<open>visiting node 'x'\<close> for x = root, a,
  c, d, e, b, f in this order, and the line \<^verbatim>\<open>finished depth first search\<close>; nothing
  else is written.
\<close>

theorem main_output:
  "\<exists>s'. main s = Some (Inr (0, s')) \<and>
     stdout s' = stdout s @ concat (map (\<lambda>l. l @ [CHR 0x0A])
       [''beginning depth first search'',
        ''visiting node '' @ [CHR 0x27] @ ''root'' @ [CHR 0x27],
        ''visiting node '' @ [CHR 0x27] @ ''a'' @ [CHR 0x27],
        ''visiting node '' @ [CHR 0x27] @ ''c'' @ [CHR 0x27],
        ''visiting node '' @ [CHR 0x27] @ ''d'' @ [CHR 0x27],
        ''visiting node '' @ [CHR 0x27] @ ''e'' @ [CHR 0x27],
        ''visiting node '' @ [CHR 0x27] @ ''b'' @ [CHR 0x27],
        ''visiting node '' @ [CHR 0x27] @ ''f'' @ [CHR 0x27],
        ''finished depth first search''])"
  by (simp add: main_run main_tree_names visit_line_def)

text \<open>
  C2. On the tree that \<^verbatim>\<open>main\<close> has wired, \<^verbatim>\<open>dfs\<close> called on the root returns and has
  called \<^verbatim>\<open>visit\<close> on exactly the nodes root, a, c, d, e, b, f, in this order; the run of
  \<^verbatim>\<open>main\<close> makes the same calls of \<^verbatim>\<open>visit\<close> and no other.
\<close>

theorem fixed_tree_visit_order:
  "\<exists>s1 s2 s3.
     main_link (main_declare s) = Inr s1 \<and>
     dfs (Some root_addr) s1 = Some (Inr s2) \<and>
     visited (trace s2) = visited (trace s) @
       [Some root_addr, Some a_addr, Some c_addr, Some d_addr, Some e_addr, Some b_addr, Some f_addr] \<and>
     main s = Some (Inr (0, s3)) \<and>
     visited (trace s3) = visited (trace s2)"
  by (simp add: main_link_wired linked_run main_run visited_append visited_tree_trace
      main_tree_addrs)

text \<open>
  C3. When the store holds a finite tree with distinct cells (and names) below the pointer
  given to \<^verbatim>\<open>dfs\<close>, the call returns, and in the sequence of nodes it has called
  \<^verbatim>\<open>visit\<close> on every cell reachable from the pointer occurs exactly once and no other
  cell occurs. In the run of \<^verbatim>\<open>main\<close> each of the seven cells is visited exactly once, and
  each of the seven names is in exactly one of the seven \<^verbatim>\<open>visiting node\<close> lines written
  between the two fixed lines.
\<close>

theorem dfs_visits_each_reachable_once:
  "(tree_at (heap s) p t \<and> distinct (addrs t) \<longrightarrow>
      (\<exists>s' vs. dfs p s = Some (Inr s') \<and>
         visited (trace s') = visited (trace s) @ map Some vs \<and>
         (\<forall>a. count_list vs a = (if reachable (heap s) p a then 1 else 0)))) \<and>
   (\<exists>s' vs ns. main s0 = Some (Inr (0, s')) \<and>
      visited (trace s') = visited (trace s0) @ map Some vs \<and>
      map (count_list vs) [root_addr, a_addr, b_addr, c_addr, d_addr, e_addr, f_addr] =
        [1, 1, 1, 1, 1, 1, 1] \<and>
      length vs = 7 \<and>
      stdout s' = stdout s0 @ ''beginning depth first search'' @ [CHR 0x0A]
        @ concat (map visit_line ns) @ ''finished depth first search'' @ [CHR 0x0A] \<and>
      map (count_list ns) [''root'', ''a'', ''b'', ''c'', ''d'', ''e'', ''f''] =
        [1, 1, 1, 1, 1, 1, 1] \<and>
      length ns = 7)"
proof (intro conjI impI)
  assume a: "tree_at (heap s) p t \<and> distinct (addrs t)"
  then have t: "tree_at (heap s) p t" and d: "distinct (addrs t)"
    by simp_all
  have "\<forall>a. count_list (addrs t) a = (if reachable (heap s) p a then 1 else 0)"
    using reachable_tree[OF t] count_list_distinct[OF d] by auto
  then show "\<exists>s' vs. dfs p s = Some (Inr s') \<and>
         visited (trace s') = visited (trace s) @ map Some vs \<and>
         (\<forall>a. count_list vs a = (if reachable (heap s) p a then 1 else 0))"
    by (simp add: dfs_tree[OF t] visited_append visited_tree_trace)
next
  show "\<exists>s' vs ns. main s0 = Some (Inr (0, s')) \<and>
      visited (trace s') = visited (trace s0) @ map Some vs \<and>
      map (count_list vs) [root_addr, a_addr, b_addr, c_addr, d_addr, e_addr, f_addr] =
        [1, 1, 1, 1, 1, 1, 1] \<and>
      length vs = 7 \<and>
      stdout s' = stdout s0 @ ''beginning depth first search'' @ [CHR 0x0A]
        @ concat (map visit_line ns) @ ''finished depth first search'' @ [CHR 0x0A] \<and>
      map (count_list ns) [''root'', ''a'', ''b'', ''c'', ''d'', ''e'', ''f''] =
        [1, 1, 1, 1, 1, 1, 1] \<and>
      length ns = 7"
    apply (rule exI[of _ "s0\<lparr>heap := wired (heap s0),
       stdout := stdout s0 @ ''beginning depth first search'' @ [CHR 0x0A]
                 @ concat (map visit_line (names main_tree))
                 @ ''finished depth first search'' @ [CHR 0x0A],
       trace := trace s0 @ tree_trace main_tree\<rparr>"])
    apply (rule exI[of _ "addrs main_tree"])
    apply (rule exI[of _ "names main_tree"])
    apply (simp add: main_run visited_append visited_tree_trace)
    apply (simp add: main_tree_addrs main_tree_names addr_defs)
    done
qed

theorem dfs_visits_each_reachable_once_witness:
  "tree_at (wired Map.empty) (Some root_addr) main_tree \<and> distinct (addrs main_tree) \<and>
   (\<exists>s' vs. dfs (Some root_addr) \<lparr>heap = wired Map.empty, stdout = [], trace = []\<rparr> = Some (Inr s') \<and>
      visited (trace s') = map Some vs \<and>
      (\<forall>a. count_list vs a = (if reachable (wired Map.empty) (Some root_addr) a then 1 else 0)))"
  using dfs_visits_each_reachable_once
    [of "\<lparr>heap = wired Map.empty, stdout = [], trace = []\<rparr>" "Some root_addr" main_tree]
    wired_tree[of Map.empty] main_tree_distinct
  by simp

text \<open>
  C4. When the store holds a finite tree with distinct cells below the pointer given to
  \<^verbatim>\<open>dfs\<close>, and N is the number of cells reachable from it, the call returns after exactly N
  calls of \<^verbatim>\<open>visit\<close>, N entries into \<^verbatim>\<open>dfs\<close> with a node and N + 1 entries with the null
  pointer. For the tree wired by \<^verbatim>\<open>main\<close>, N is 7: seven visits and eight null tests.
\<close>

theorem dfs_terminates_counts:
  "(tree_at (heap s) p t \<and> distinct (addrs t) \<longrightarrow>
      (\<exists>s'. dfs p s = Some (Inr s') \<and>
         length (visited (trace s')) =
           length (visited (trace s)) + card {a. reachable (heap s) p a} \<and>
         node_calls (trace s') = node_calls (trace s) + card {a. reachable (heap s) p a} \<and>
         null_checks (trace s') =
           null_checks (trace s) + card {a. reachable (heap s) p a} + 1)) \<and>
   (\<exists>s1 s2. main_link (main_declare s0) = Inr s1 \<and>
      card {a. reachable (heap s1) (Some root_addr) a} = 7 \<and>
      dfs (Some root_addr) s1 = Some (Inr s2) \<and>
      length (visited (trace s2)) = length (visited (trace s0)) + 7 \<and>
      node_calls (trace s2) = node_calls (trace s0) + 7 \<and>
      null_checks (trace s2) = null_checks (trace s0) + 8)"
proof (intro conjI impI)
  assume "tree_at (heap s) p t \<and> distinct (addrs t)"
  then have t: "tree_at (heap s) p t" and d: "distinct (addrs t)"
    by simp_all
  show "\<exists>s'. dfs p s = Some (Inr s') \<and>
         length (visited (trace s')) =
           length (visited (trace s)) + card {a. reachable (heap s) p a} \<and>
         node_calls (trace s') = node_calls (trace s) + card {a. reachable (heap s) p a} \<and>
         null_checks (trace s') =
           null_checks (trace s) + card {a. reachable (heap s) p a} + 1"
    by (simp add: dfs_tree[OF t] card_reachable_tree[OF t d] visited_append visited_tree_trace
        node_calls_append node_calls_tree_trace null_checks_append null_checks_tree_trace)
next
  have "card {a. reachable (wired (heap s0)) (Some root_addr) a} = 7"
    using card_reachable_tree[OF wired_tree main_tree_distinct, of "heap s0"]
    by (simp add: main_tree_addrs)
  then show "\<exists>s1 s2. main_link (main_declare s0) = Inr s1 \<and>
      card {a. reachable (heap s1) (Some root_addr) a} = 7 \<and>
      dfs (Some root_addr) s1 = Some (Inr s2) \<and>
      length (visited (trace s2)) = length (visited (trace s0)) + 7 \<and>
      node_calls (trace s2) = node_calls (trace s0) + 7 \<and>
      null_checks (trace s2) = null_checks (trace s0) + 8"
    by (simp add: main_link_wired linked_run visited_append visited_tree_trace
        node_calls_append node_calls_tree_trace null_checks_append null_checks_tree_trace
        main_tree_addrs)
qed

theorem dfs_terminates_counts_witness:
  "tree_at (wired Map.empty) (Some root_addr) main_tree \<and> distinct (addrs main_tree) \<and>
   card {a. reachable (wired Map.empty) (Some root_addr) a} = 7 \<and>
   (\<exists>s'. dfs (Some root_addr) \<lparr>heap = wired Map.empty, stdout = [], trace = []\<rparr> = Some (Inr s') \<and>
      length (visited (trace s')) = 7 \<and> node_calls (trace s') = 7 \<and>
      null_checks (trace s') = 8)"
proof -
  have c: "card {a. reachable (wired Map.empty) (Some root_addr) a} = 7"
    using card_reachable_tree[OF wired_tree main_tree_distinct, of Map.empty]
    by (simp add: main_tree_addrs)
  show ?thesis
    using dfs_terminates_counts
      [of "\<lparr>heap = wired Map.empty, stdout = [], trace = []\<rparr>" "Some root_addr" main_tree]
      wired_tree[of Map.empty] main_tree_distinct c
    by simp
qed

text \<open>
  C5. Called with the null pointer, \<^verbatim>\<open>dfs\<close> returns normally (no fault) after the single
  entry that tests the pointer: no call of \<^verbatim>\<open>visit\<close> is made, nothing is written and the
  store is unchanged.
\<close>

theorem dfs_null:
  "\<exists>s'. dfs None s = Some (Inr s') \<and>
     visited (trace s') = visited (trace s) \<and>
     trace s' = trace s @ [Ev_dfs None] \<and>
     stdout s' = stdout s \<and> heap s' = heap s"
  by (subst dfs.simps) (simp add: log_event_def visited_append)

text \<open>
  C6. On a cell whose two child pointers are null, \<^verbatim>\<open>dfs\<close> enters, calls \<^verbatim>\<open>visit\<close> on
  the cell, which writes its one line, and then only enters twice with the null pointer:
  no further call of \<^verbatim>\<open>visit\<close> is made. (Were the name of the cell the null pointer, the
  call of \<^verbatim>\<open>visit\<close> would be undefined behaviour.) In the store wired by \<^verbatim>\<open>main\<close> the
  cells c, e and f are such cells.
\<close>

theorem dfs_leaf:
  "(heap s a = Some n \<and> left n = None \<and> right n = None \<longrightarrow>
      dfs (Some a) s =
        (case name n of
           None \<Rightarrow> Some (Inl Null_string)
         | Some nm \<Rightarrow>
             Some (Inr (s\<lparr>stdout := stdout s @ ''visiting node '' @ [CHR 0x27] @ nm @ [CHR 0x27, CHR 0x0A],
                          trace := trace s @
                            [Ev_dfs (Some a), Ev_visit (Some a), Ev_dfs None, Ev_dfs None]\<rparr>)))) \<and>
   (\<exists>s1. main_link (main_declare s0) = Inr s1 \<and>
      map (heap s1) [c_addr, e_addr, f_addr] =
        [Some \<lparr>left = None, right = None, name = Some ''c''\<rparr>,
         Some \<lparr>left = None, right = None, name = Some ''e''\<rparr>,
         Some \<lparr>left = None, right = None, name = Some ''f''\<rparr>])"
proof (intro conjI impI)
  assume "heap s a = Some n \<and> left n = None \<and> right n = None"
  then have n: "heap s a = Some n" and l: "left n = None" and r: "right n = None"
    by simp_all
  have null: "\<And>s. dfs None s = Some (Inr (log_event (Ev_dfs None) s))"
    by (subst dfs.simps) simp
  show "dfs (Some a) s =
        (case name n of
           None \<Rightarrow> Some (Inl Null_string)
         | Some nm \<Rightarrow>
             Some (Inr (s\<lparr>stdout := stdout s @ ''visiting node '' @ [CHR 0x27] @ nm @ [CHR 0x27, CHR 0x0A],
                          trace := trace s @
                            [Ev_dfs (Some a), Ev_visit (Some a), Ev_dfs None, Ev_dfs None]\<rparr>)))"
    by (subst dfs.simps)
      (simp add: n l r null visit_def log_event_def printf_def split: option.splits)
next
  show "\<exists>s1. main_link (main_declare s0) = Inr s1 \<and>
      map (heap s1) [c_addr, e_addr, f_addr] =
        [Some \<lparr>left = None, right = None, name = Some ''c''\<rparr>,
         Some \<lparr>left = None, right = None, name = Some ''e''\<rparr>,
         Some \<lparr>left = None, right = None, name = Some ''f''\<rparr>]"
    by (simp add: main_link_wired wired_def addr_defs)
qed

theorem dfs_leaf_witness:
  "heap \<lparr>heap = wired Map.empty, stdout = [], trace = []\<rparr> c_addr =
     Some \<lparr>left = None, right = None, name = Some ''c''\<rparr> \<and>
   dfs (Some c_addr) \<lparr>heap = wired Map.empty, stdout = [], trace = []\<rparr> =
     Some (Inr \<lparr>heap = wired Map.empty,
             stdout = ''visiting node '' @ [CHR 0x27] @ ''c'' @ [CHR 0x27, CHR 0x0A],
             trace = [Ev_dfs (Some c_addr), Ev_visit (Some c_addr), Ev_dfs None, Ev_dfs None]\<rparr>)"
proof -
  have c: "wired Map.empty c_addr = Some \<lparr>left = None, right = None, name = Some ''c''\<rparr>"
    by (simp add: wired_def addr_defs)
  show ?thesis
    using dfs_leaf [of "\<lparr>heap = wired Map.empty, stdout = [], trace = []\<rparr>" c_addr
        "\<lparr>left = None, right = None, name = Some ''c''\<rparr>"] c
    by simp
qed

text \<open>
  C7. The declarations and the six assignments of \<^verbatim>\<open>main\<close> cannot fail and leave the
  store with exactly these seven cells written: root with left child a and right child b,
  a with left child c and right child d, b with no left child and right child f, d with
  left child e and no right child, and c, e, f with no child; the seven cells are distinct
  and so are the seven names.
\<close>

theorem main_construction:
  "main_link (main_declare s) = Inr (s\<lparr>heap := (heap s)
     (root_addr \<mapsto> \<lparr>left = Some a_addr, right = Some b_addr, name = Some ''root''\<rparr>,
      a_addr \<mapsto> \<lparr>left = Some c_addr, right = Some d_addr, name = Some ''a''\<rparr>,
      b_addr \<mapsto> \<lparr>left = None, right = Some f_addr, name = Some ''b''\<rparr>,
      c_addr \<mapsto> \<lparr>left = None, right = None, name = Some ''c''\<rparr>,
      d_addr \<mapsto> \<lparr>left = Some e_addr, right = None, name = Some ''d''\<rparr>,
      e_addr \<mapsto> \<lparr>left = None, right = None, name = Some ''e''\<rparr>,
      f_addr \<mapsto> \<lparr>left = None, right = None, name = Some ''f''\<rparr>)\<rparr>) \<and>
   distinct [root_addr, a_addr, b_addr, c_addr, d_addr, e_addr, f_addr] \<and>
   distinct [''root'', ''a'', ''b'', ''c'', ''d'', ''e'', ''f'']"
  by (simp add: main_link_wired wired_def) (simp add: addr_defs)

text \<open>
  C8. From every state of the world, \<^verbatim>\<open>main\<close> returns, without a fault, the exit
  status 0.
\<close>

theorem main_exit_status: "\<exists>s'. main s = Some (Inr (0, s'))"
  by (simp add: main_run)

text \<open>
  C9. Whenever \<^verbatim>\<open>visit\<close> or \<^verbatim>\<open>dfs\<close> returns, on whatever store, the store is the one it
  was called with; and the store at the end of \<^verbatim>\<open>main\<close> is the store as it was when the
  six assignments were done.
\<close>

theorem traversal_leaves_store_unchanged:
  "(visit p s = Inr s' \<longrightarrow> heap s' = heap s) \<and>
   (dfs p s = Some (Inr s') \<longrightarrow> heap s' = heap s) \<and>
   (\<exists>s1 s2. main_link (main_declare s0) = Inr s1 \<and> main s0 = Some (Inr (0, s2)) \<and>
      heap s2 = heap s1)"
  by (auto simp: visit_heap dfs_heap main_link_wired main_run)

theorem traversal_leaves_store_unchanged_witness:
  "visit (Some root_addr) \<lparr>heap = wired Map.empty, stdout = [], trace = []\<rparr> =
     Inr \<lparr>heap = wired Map.empty, stdout = visit_line ''root'',
          trace = [Ev_visit (Some root_addr)]\<rparr> \<and>
   heap \<lparr>heap = wired Map.empty, stdout = visit_line ''root'',
          trace = [Ev_visit (Some root_addr)]\<rparr> = wired Map.empty \<and>
   dfs (Some root_addr) \<lparr>heap = wired Map.empty, stdout = [], trace = []\<rparr> =
     Some (Inr \<lparr>heap = wired Map.empty, stdout = concat (map visit_line (names main_tree)),
                trace = tree_trace main_tree\<rparr>) \<and>
   heap \<lparr>heap = wired Map.empty, stdout = concat (map visit_line (names main_tree)),
          trace = tree_trace main_tree\<rparr> = wired Map.empty"
proof -
  have v: "visit (Some root_addr) \<lparr>heap = wired Map.empty, stdout = [], trace = []\<rparr> =
     Inr \<lparr>heap = wired Map.empty, stdout = visit_line ''root'',
          trace = [Ev_visit (Some root_addr)]\<rparr>"
    by (simp add: visit_def log_event_def printf_def wired_def addr_defs visit_line_def)
  have d: "dfs (Some root_addr) \<lparr>heap = wired Map.empty, stdout = [], trace = []\<rparr> =
     Some (Inr \<lparr>heap = wired Map.empty, stdout = concat (map visit_line (names main_tree)),
                trace = tree_trace main_tree\<rparr>)"
    using linked_run[of "\<lparr>heap = Map.empty, stdout = [], trace = []\<rparr>"] by simp
  show ?thesis
    using v d
      traversal_leaves_store_unchanged
        [of "Some root_addr" "\<lparr>heap = wired Map.empty, stdout = [], trace = []\<rparr>"
            "\<lparr>heap = wired Map.empty, stdout = visit_line ''root'',
              trace = [Ev_visit (Some root_addr)]\<rparr>"]
      traversal_leaves_store_unchanged
        [of "Some root_addr" "\<lparr>heap = wired Map.empty, stdout = [], trace = []\<rparr>"
            "\<lparr>heap = wired Map.empty, stdout = concat (map visit_line (names main_tree)),
              trace = tree_trace main_tree\<rparr>"]
    by simp
qed

text \<open>
  C10. \<^verbatim>\<open>visit\<close> reads through its argument without a test: called with the null pointer
  it is undefined behaviour. \<^verbatim>\<open>dfs\<close> never ends in that fault, on any store and from any
  pointer. Each of the seven cells wired by \<^verbatim>\<open>main\<close> has a name that is not null, and the
  run of \<^verbatim>\<open>main\<close> ends without any fault, every call of \<^verbatim>\<open>visit\<close> in it having had
  a node as its argument.
\<close>

theorem visit_dereference_safe:
  "visit None s = Inl Null_deref \<and>
   dfs p s \<noteq> Some (Inl Null_deref) \<and>
   (\<exists>s1 s2. main_link (main_declare s0) = Inr s1 \<and>
      map (\<lambda>x. map_option name (heap s1 x))
          [root_addr, a_addr, b_addr, c_addr, d_addr, e_addr, f_addr] =
        [Some (Some ''root''), Some (Some ''a''), Some (Some ''b''), Some (Some ''c''),
         Some (Some ''d''), Some (Some ''e''), Some (Some ''f'')] \<and>
      main s0 = Some (Inr (0, s2)) \<and>
      visited (trace s2) = visited (trace s0) @
        [Some root_addr, Some a_addr, Some c_addr, Some d_addr, Some e_addr, Some b_addr,
         Some f_addr])"
proof (intro conjI)
  show "visit None s = Inl Null_deref"
    by (simp add: visit_def)
  show "dfs p s \<noteq> Some (Inl Null_deref)"
    using dfs_no_null_deref[of p s] by blast
  show "\<exists>s1 s2. main_link (main_declare s0) = Inr s1 \<and>
      map (\<lambda>x. map_option name (heap s1 x))
          [root_addr, a_addr, b_addr, c_addr, d_addr, e_addr, f_addr] =
        [Some (Some ''root''), Some (Some ''a''), Some (Some ''b''), Some (Some ''c''),
         Some (Some ''d''), Some (Some ''e''), Some (Some ''f'')] \<and>
      main s0 = Some (Inr (0, s2)) \<and>
      visited (trace s2) = visited (trace s0) @
        [Some root_addr, Some a_addr, Some c_addr, Some d_addr, Some e_addr, Some b_addr,
         Some f_addr]"
    by (simp add: main_link_wired main_run visited_append visited_tree_trace main_tree_addrs)
      (simp add: wired_def addr_defs)
qed

end
